theory Spec2Isabelle
  imports Complex_Main
begin

section \<open>The entity-linking annotation tool (main.py)\<close>

text \<open>
  The development embeds class \<open>Annotator\<close> of \<open>main.py\<close>: the link suggestion, the status
  report, the commands that store, accept and correct links, and the command loop. The
  classes \<open>Corpus\<close>, \<open>LinkAnnotation\<close> and \<open>LinkAnnotations\<close> and the module \<open>config\<close> are
  imported by \<open>main.py\<close> from the modules \<open>model\<close> and \<open>config\<close>, which are not embedded
  here; what \<open>main.py\<close> needs of them is modelled from the specification, with the names
  that \<open>main.py\<close> uses, and marked as such.
\<close>

subsection \<open>Data model\<close>

text \<open>
  Modelled from the spec: a mention (section 3), the \<open>entity\<close> in the loop of
  \<open>action_print_next\<close>: the file it occurs in (\<open>entity.file_name\<close>) and its extent, the
  offsets of its start and end.
\<close>

record entity =
  file_name :: string
  p1 :: nat
  p2 :: nat

text \<open>
  Modelled from the spec: an entity type (section 3), the mentions of one surface text with
  the link given to them. \<open>main.py\<close> reads \<open>text()\<close>, \<open>entity_class()\<close> and \<open>link\<close>,
  writes \<open>link\<close>, and iterates over the mentions. \<open>link = None\<close> is "not yet annotated";
  the empty string is the empty-link sentinel, the decision that the entity is not linkable
  (section 6, and \<open>validate_link\<close> below).
\<close>

record entity_type =
  et_text :: string
  et_class :: string
  link :: "string option"
  entities :: "entity list"

text \<open>
  Modelled from the spec: a corpus file (sections 3 and 4.3): its \<open>name\<close>, its raw text,
  and \<open>data\<close>, the dictionary from surface text to the entity type of that text in this
  file (an association list in insertion order; \<open>map_of\<close> is \<open>dict.get\<close>).
\<close>

record corpus_file =
  name :: string
  source_text :: string
  data :: "(string \<times> entity_type) list"

text \<open>
  Modelled from the spec: the corpus (section 3): \<open>annotations_folder\<close>, the dictionary
  \<open>files\<close> from file name to corpus file, and the cursor of the traversal.
\<close>

record corpus =
  annotations_folder :: string
  files :: "(string \<times> corpus_file) list"
  cursor :: nat

text \<open>Modelled from the spec: \<open>Corpus.get_files()\<close>, the corpus files in their order.\<close>

definition get_files :: "corpus \<Rightarrow> corpus_file list" where
  "get_files c = map snd (files c)"

subsection \<open>Link suggestion\<close>

text \<open>
  The loop of \<open>suggest_link\<close>: for each corpus file, \<open>corpus_file.data.get(entity_text)\<close>;
  the link is appended when the entry exists and its link is not \<open>None\<close>.
\<close>

fun collect_suggestions :: "corpus_file list \<Rightarrow> string \<Rightarrow> string list" where
  "collect_suggestions [] entity_text = []"
| "collect_suggestions (corpus_file # rest) entity_text =
     (case map_of (data corpus_file) entity_text of
        None \<Rightarrow> collect_suggestions rest entity_text
      | Some suggestion \<Rightarrow>
          (case link suggestion of
             None \<Rightarrow> collect_suggestions rest entity_text
           | Some l \<Rightarrow> l # collect_suggestions rest entity_text))"

text \<open>
  \<open>collections.Counter(suggestions)\<close>: a dictionary in insertion order; each element of
  the iterable either bumps its count or is added at the end with count 1.
\<close>

fun count_add :: "'a \<Rightarrow> ('a \<times> nat) list \<Rightarrow> ('a \<times> nat) list" where
  "count_add x [] = [(x, 1)]"
| "count_add x ((y, n) # ys) =
     (if x = y then (y, Suc n) # ys else (y, n) # count_add x ys)"

definition Counter :: "'a list \<Rightarrow> ('a \<times> nat) list" where
  "Counter xs = foldl (\<lambda>c x. count_add x c) [] xs"

text \<open>
  \<open>Counter.most_common()\<close> without argument is
  \<open>sorted(self.items(), key=itemgetter(1), reverse=True)\<close>. Python's sort is stable, and
  with \<open>reverse=True\<close> it still keeps elements of equal key in their original order: the
  list is reversed, sorted in ascending order, and reversed again.
\<close>

definition most_common :: "('a \<times> nat) list \<Rightarrow> ('a \<times> nat) list" where
  "most_common items = rev (sort_key snd (rev items))"

text \<open>
  The list \<open>suggestions\<close> of \<open>suggest_link\<close>, and its result \<open>c.most_common()[0][0]\<close>, with the
  \<open>IndexError\<close> of the empty list caught.
\<close>

definition suggestions :: "corpus \<Rightarrow> string \<Rightarrow> string list" where
  "suggestions c entity_text = collect_suggestions (get_files c) entity_text"

definition suggest_link :: "corpus \<Rightarrow> string \<Rightarrow> string option" where
  "suggest_link c entity_text =
     (case most_common (Counter (suggestions c entity_text)) of
        [] \<Rightarrow> None
      | (l, n) # rest \<Rightarrow> Some l)"

text \<open>
  Modelled from the spec: the entity type that \<open>Corpus.next()\<close> returns is the object that
  the dictionary of its corpus file holds (sections 3 and 4.3: a corpus file maps a surface
  text to what has been resolved for it so far). A reference to it is its place in the
  corpus: the name of the file and the surface text. Reading and writing \<open>link\<close> through a
  reference goes to the corpus, so that a write through \<open>next_entity\<close> is seen by
  \<open>suggest_link\<close>.
\<close>

type_synonym entity_ref = "string \<times> string"

definition deref :: "corpus \<Rightarrow> entity_ref \<Rightarrow> entity_type option" where
  "deref c r =
     (case map_of (files c) (fst r) of
        None \<Rightarrow> None
      | Some corpus_file \<Rightarrow> map_of (data corpus_file) (snd r))"

text \<open>The assignment \<open>entity_type.link = l\<close> through a reference.\<close>

definition set_link :: "corpus \<Rightarrow> entity_ref \<Rightarrow> string \<Rightarrow> corpus" where
  "set_link c r l =
     c\<lparr>files :=
         map (\<lambda>(n, f).
                if n = fst r
                then (n, f\<lparr>data := map (\<lambda>(t, e). if t = snd r then (t, e\<lparr>link := Some l\<rparr>) else (t, e))
                                      (data f)\<rparr>)
                else (n, f))
             (files c)\<rparr>"

text \<open>
  Modelled from the spec: \<open>Corpus.next()\<close> (section 4.1). The traversal is deterministic,
  document order and then the order within a document; entity types already annotated are
  skipped; advancing mutates the cursor, which does not rewind; when no entity type is
  left the terminal signal (\<open>None\<close>) is returned.
\<close>

definition entity_types :: "corpus \<Rightarrow> (entity_ref \<times> entity_type) list" where
  "entity_types c = concat (map (\<lambda>(n, f). map (\<lambda>(t, e). ((n, t), e)) (data f)) (files c))"

definition corpus_next :: "corpus \<Rightarrow> (entity_ref \<times> entity_type) option \<times> corpus" where
  "corpus_next c =
     (case dropWhile (\<lambda>(r, e). link e \<noteq> None) (drop (cursor c) (entity_types c)) of
        [] \<Rightarrow> (None, c\<lparr>cursor := length (entity_types c)\<rparr>)
      | x # rest \<Rightarrow> (Some x, c\<lparr>cursor := length (entity_types c) - length rest\<rparr>))"

text \<open>
  Modelled from the spec: \<open>CorpusFile.get_context(entity)\<close> (sections 3 and 6), the window
  of the configured size to the left and to the right of the mention, shorter at the ends
  of the text. The spec fixes the window for a size \<open>n \<ge> 0\<close> only; for a negative size the
  model takes the empty window, and no theorem below rests on that case.
\<close>

definition get_context :: "int \<Rightarrow> corpus_file \<Rightarrow> entity \<Rightarrow> string \<times> string" where
  "get_context n f e =
     (drop (p1 e - nat n) (take (p1 e) (source_text f)),
      take (nat n) (drop (p2 e) (source_text f)))"

text \<open>
  Modelled from the spec: \<open>CorpusFile.status()\<close> and \<open>entity_type_count()\<close> (section 4.1):
  the number of distinct entity types of the file, the number of them already annotated,
  and the percentage, which is 0 for a file with no entity types.
\<close>

definition entity_type_count :: "corpus_file \<Rightarrow> nat" where
  "entity_type_count f = length (data f)"

definition file_status :: "corpus_file \<Rightarrow> nat \<times> nat \<times> rat" where
  "file_status f =
     (let total_types = length (data f);
          types_done = length (filter (\<lambda>(t, e). link e \<noteq> None) (data f))
      in (total_types, types_done,
          if total_types = 0 then 0 else of_nat types_done * 100 / of_nat total_types))"

subsection \<open>The annotation store\<close>

text \<open>
  Modelled from the spec: an annotation record (section 6): identifier, document identifier,
  offsets of the mentions covered, surface text, entity class, link.
\<close>

record link_annotation =
  ann_identifier :: int
  ann_file :: string
  ann_offsets :: "(nat \<times> nat) list"
  ann_text :: string
  ann_class :: string
  ann_link :: string

text \<open>
  Modelled from the spec: \<open>LinkAnnotations.normalize_link\<close> (sections 4.2 and 6). Empty or
  dash input gives the empty-link sentinel, the empty string; a value that is already a full
  URL (it has a scheme, that is, \<open>://\<close> occurs in it) is passed through unchanged; anything
  else is a bare article title: its spaces become underscores and the fixed base URL is put
  in front.
\<close>

definition base_url :: string where
  "base_url = ''https://en.wikipedia.org/wiki/''"

fun has_scheme :: "string \<Rightarrow> bool" where
  "has_scheme [] = False"
| "has_scheme (c # cs) = (take 3 (c # cs) = ''://'' \<or> has_scheme cs)"

definition normalize_link :: "string \<Rightarrow> string" where
  "normalize_link raw =
     (if raw = [] \<or> raw = ''-'' then []
      else if has_scheme raw then raw
      else base_url @ map (\<lambda>ch. if ch = CHR '' '' then CHR ''_'' else ch) raw)"

text \<open>
  Modelled from the spec: the operations of \<open>LinkAnnotations\<close> (section 4.2). \<open>add_link\<close>
  appends one record for the decision, under the next unused identifier, with the link
  normalized, and is a no-op when there is no entity type; \<open>get_annotation\<close> is the exact
  lookup by identifier, the latest record of that identifier, failing when there is none;
  \<open>create_link\<close> copies the descriptive fields of the old record, with the new link and a
  fresh identifier, and does not save; \<open>save_annotation\<close> appends.
\<close>

definition next_identifier :: "link_annotation list \<Rightarrow> int" where
  "next_identifier anns = fold max (map ann_identifier anns) 0 + 1"

definition add_link :: "link_annotation list \<Rightarrow> corpus \<Rightarrow> entity_ref \<Rightarrow> string \<Rightarrow> link_annotation list" where
  "add_link anns c r l =
     (case deref c r of
        None \<Rightarrow> anns
      | Some et \<Rightarrow>
          anns @ [\<lparr>ann_identifier = next_identifier anns, ann_file = fst r,
                   ann_offsets = map (\<lambda>e. (p1 e, p2 e)) (entities et),
                   ann_text = et_text et, ann_class = et_class et,
                   ann_link = normalize_link l\<rparr>])"

definition get_annotation :: "link_annotation list \<Rightarrow> int \<Rightarrow> link_annotation option" where
  "get_annotation anns i =
     (case filter (\<lambda>a. ann_identifier a = i) anns of
        [] \<Rightarrow> None
      | a # as \<Rightarrow> Some (last (a # as)))"

definition create_link :: "link_annotation list \<Rightarrow> string \<Rightarrow> link_annotation \<Rightarrow> link_annotation" where
  "create_link anns l old = old\<lparr>ann_identifier := next_identifier anns, ann_link := l\<rparr>"

definition save_annotation :: "link_annotation list \<Rightarrow> link_annotation \<Rightarrow> link_annotation list" where
  "save_annotation anns a = anns @ [a]"

subsection \<open>Python's \<open>int\<close>, \<open>str.split\<close> and \<open>round\<close>\<close>

text \<open>
  \<open>int(s)\<close> on a string, for ASCII input: surrounding whitespace is stripped, an optional
  sign follows, then decimal digits, where single underscores may stand between digits.
  Anything else raises \<open>ValueError\<close> (\<open>None\<close> here). \<open>strip\<close> is also \<open>str.strip()\<close>.
\<close>

definition is_space :: "char \<Rightarrow> bool" where
  "is_space ch = (let k = (of_char ch :: nat) in (9 \<le> k \<and> k \<le> 13) \<or> (28 \<le> k \<and> k \<le> 32))"

definition is_digit :: "char \<Rightarrow> bool" where
  "is_digit ch = (let k = (of_char ch :: nat) in 48 \<le> k \<and> k \<le> 57)"

definition digit_val :: "char \<Rightarrow> nat" where
  "digit_val ch = of_char ch - 48"

definition strip :: "string \<Rightarrow> string" where
  "strip s = rev (dropWhile is_space (rev (dropWhile is_space s)))"

fun digits :: "string \<Rightarrow> nat \<Rightarrow> nat option" where
  "digits [] acc = Some acc"
| "digits [ch] acc = (if is_digit ch then Some (10 * acc + digit_val ch) else None)"
| "digits (ch # d # ds) acc =
     (if is_digit ch then digits (d # ds) (10 * acc + digit_val ch)
      else if ch = CHR ''_'' \<and> is_digit d then digits ds (10 * acc + digit_val d)
      else None)"

definition unsigned :: "string \<Rightarrow> nat option" where
  "unsigned s =
     (case s of
        [] \<Rightarrow> None
      | ch # cs \<Rightarrow> if is_digit ch then digits cs (digit_val ch) else None)"

definition py_int :: "string \<Rightarrow> int option" where
  "py_int s =
     (case strip s of
        [] \<Rightarrow> None
      | ch # cs \<Rightarrow>
          if ch = CHR ''-'' then map_option (\<lambda>n. - int n) (unsigned cs)
          else if ch = CHR ''+'' then map_option int (unsigned cs)
          else map_option int (unsigned (ch # cs)))"

text \<open>
  \<open>s.split(' ', 1)\<close> unpacked into two names: the parts before and after the first space;
  without a space the unpacking raises \<open>ValueError\<close> (\<open>None\<close> here).
\<close>

fun split_space :: "string \<Rightarrow> (string \<times> string) option" where
  "split_space [] = None"
| "split_space (ch # cs) =
     (if ch = CHR '' '' then Some ([], cs)
      else map_option (\<lambda>(a, b). (ch # a, b)) (split_space cs))"

text \<open>
  \<open>round(x)\<close> with one argument rounds to the nearest integer, a tie to the even one. The
  source rounds floats; the model computes the quotient and the product over the rationals,
  which is what the float computation gives wherever both are exact, as at
  \<open>corpus_types_done = corpus_types\<close>.
\<close>

definition py_round :: "rat \<Rightarrow> int" where
  "py_round x =
     (let f = \<lfloor>x\<rfloor>; d = x - of_int f
      in if d < 1 / 2 then f
         else if 1 / 2 < d then f + 1
         else if even f then f else f + 1)"

subsection \<open>The annotator\<close>

datatype error =
    ValueError | ZeroDivisionError | AttributeError | NotFound | CorpusExhausted | EOFError

text \<open>What the tool prints, one constructor for each \<open>print\<close> of the source.\<close>

datatype printed =
    Warning string
  | EntityHeader string string
  | ContextLine string string string
  | LinkSuggestion string
  | StatusHeader string
  | FileStatus string nat int
  | CorpusStatus nat int
  | ContextSizeWarning
  | DebugAnnotation link_annotation
  | HelpText
  | AnnotationsHeader "string option"
  | AnnotationLine link_annotation
  | DebugLoop string "string option" "string option" "entity_ref option"

text \<open>The messages of class \<open>Warnings\<close>.\<close>

definition NO_ENTITY :: string where
  "NO_ENTITY = ''no entity was selected, type '' @ [CHR 0x22] @ ''n'' @ [CHR 0x22]
                 @ '' to select next entity''"

definition NO_LINK_SUGGESTION :: string where
  "NO_LINK_SUGGESTION = ''there was no link suggestion''"

definition UNKNOWN_COMMAND :: string where
  "UNKNOWN_COMMAND = ''unknown command, type '' @ [CHR 0x22] @ ''h'' @ [CHR 0x22]
                       @ '' to see available commands''"

definition NOT_IN_WIKIPEDIA :: "string \<Rightarrow> string" where
  "NOT_IN_WIKIPEDIA l = [CHR 0x27] @ l @ [CHR 0x27] @ '' is not an entry in Wikipedia''"

text \<open>
  The state of the tool: the fields of \<open>Annotator\<close> that the commands use, the two globals
  \<open>config.CONTEXT_SIZE\<close> and \<open>config.DEBUG\<close>, and the standard output. A command returns
  the state it leaves behind and the exception it raised, if any: \<open>loop\<close> catches nothing,
  so a raised exception ends the process.
\<close>

record annotator =
  corpus :: corpus
  next_entity :: "entity_ref option"
  link_suggestion :: "string option"
  annotations :: "link_annotation list"
  CONTEXT_SIZE :: int
  DEBUG :: bool
  out :: "printed list"

definition print_warning :: "string \<Rightarrow> annotator \<Rightarrow> annotator" where
  "print_warning message st = st\<lparr>out := out st @ [Warning message]\<rparr>"

text \<open>
  \<open>validate_link\<close>: the empty link is valid; any other link is valid when
  \<open>requests.get(link).status_code\<close> is 200. The remote service is the parameter
  \<open>status_200\<close>, a predicate on links (spec, section 4.4); an exception raised by the
  request itself is not modelled.
\<close>

definition validate_link :: "(string \<Rightarrow> bool) \<Rightarrow> string \<Rightarrow> bool" where
  "validate_link status_200 l = (if l = [] then True else if status_200 l then True else False)"

text \<open>
  The loop of \<open>action_print_next\<close> over the mentions of the entity type:
  \<open>self.corpus.files.get(entity.file_name)\<close> is \<open>None\<close> for an unknown file name, and
  the call of \<open>get_context\<close> on it raises \<open>AttributeError\<close>. The left context is padded to
  the context size; a string times a negative number is the empty string.
\<close>

fun print_contexts :: "corpus \<Rightarrow> int \<Rightarrow> string \<Rightarrow> entity list \<Rightarrow> printed list \<Rightarrow> error option \<times> printed list" where
  "print_contexts c n text_of [] acc = (None, acc)"
| "print_contexts c n text_of (e # es) acc =
     (case map_of (files c) (file_name e) of
        None \<Rightarrow> (Some AttributeError, acc)
      | Some corpus_file \<Rightarrow>
          (let (left, right) = get_context n corpus_file e;
               padded = replicate (nat (n - int (length left))) (CHR '' '') @ left
           in print_contexts c n text_of es (acc @ [ContextLine padded text_of right])))"

text \<open>
  \<open>action_print_next\<close>: \<open>self.next_entity = self.corpus.next()\<close>, the header, the context
  lines, and the suggestion, which is printed when it is truthy (neither \<open>None\<close> nor the
  empty string). The source has no branch for the terminal signal of \<open>next()\<close>: it calls
  \<open>text()\<close> on whatever was returned, and what that does on the terminal signal is decided
  outside \<open>main.py\<close>. The model ends the command there with \<open>CorpusExhausted\<close>.
\<close>

definition action_print_next :: "annotator \<Rightarrow> error option \<times> annotator" where
  "action_print_next st =
     (case corpus_next (corpus st) of
        (None, c') \<Rightarrow> (Some CorpusExhausted, st\<lparr>corpus := c', next_entity := None\<rparr>)
      | (Some (r, et), c') \<Rightarrow>
          (let text_of = et_text et;
               st1 = st\<lparr>corpus := c', next_entity := Some r,
                        out := out st @ [EntityHeader text_of (et_class et)]\<rparr>;
               (err, lines) = print_contexts c' (CONTEXT_SIZE st) text_of (entities et) (out st1)
           in case err of
                Some e \<Rightarrow> (Some e, st1\<lparr>out := lines\<rparr>)
              | None \<Rightarrow>
                  (let suggestion = suggest_link c' text_of
                   in (None,
                       st1\<lparr>link_suggestion := suggestion,
                           out := lines @
                             (case suggestion of
                                None \<Rightarrow> []
                              | Some l \<Rightarrow> if l = [] then [] else [LinkSuggestion l])\<rparr>))))"

definition action_accept_hint :: "annotator \<Rightarrow> error option \<times> annotator" where
  "action_accept_hint st =
     (case next_entity st of
        None \<Rightarrow> (None, print_warning NO_ENTITY st)
      | Some r \<Rightarrow>
          (case link_suggestion st of
             None \<Rightarrow> action_print_next (print_warning NO_LINK_SUGGESTION st)
           | Some l \<Rightarrow>
               (let c1 = set_link (corpus st) r l
                in action_print_next
                     (st\<lparr>corpus := c1, annotations := add_link (annotations st) c1 r l\<rparr>))))"

text \<open>
  \<open>action_store_link\<close>. Its inner \<open>if\<close> (lines 136 to 140) is \<open>store_or_warn\<close>: a valid
  link is written to the current entity type and added to the annotations, an invalid one
  gives a warning. With \<open>config.DEBUG\<close> the last five annotations are printed after
  \<open>action_print_next\<close> has returned.
\<close>

definition store_or_warn :: "(string \<Rightarrow> bool) \<Rightarrow> string \<Rightarrow> entity_ref \<Rightarrow> annotator \<Rightarrow> annotator" where
  "store_or_warn status_200 l r st =
     (if validate_link status_200 l
      then (let c1 = set_link (corpus st) r l
            in st\<lparr>corpus := c1, annotations := add_link (annotations st) c1 r l\<rparr>)
      else print_warning (NOT_IN_WIKIPEDIA l) st)"

definition action_store_link :: "(string \<Rightarrow> bool) \<Rightarrow> string \<Rightarrow> annotator \<Rightarrow> error option \<times> annotator" where
  "action_store_link status_200 raw st =
     (let l = normalize_link raw
      in case next_entity st of
           None \<Rightarrow> (None, print_warning NO_ENTITY st)
         | Some r \<Rightarrow>
             (let (err, st2) = action_print_next (store_or_warn status_200 l r st)
              in case err of
                   Some e \<Rightarrow> (Some e, st2)
                 | None \<Rightarrow>
                     (None,
                      if DEBUG st2
                      then st2\<lparr>out := out st2 @
                                 map DebugAnnotation
                                   (drop (length (annotations st2) - 5) (annotations st2))\<rparr>
                      else st2)))"

text \<open>
  Modelled from the spec: the record written as its tab-separated line and read back by
  \<open>LinkAnnotation(...)\<close> (section 6) is the record itself.
\<close>

definition reparse :: "link_annotation \<Rightarrow> link_annotation" where
  "reparse a = a"

text \<open>
  \<open>action_fix_link\<close>: the split and \<open>int\<close> come first and are not guarded; then the link
  is normalized and validated; only then the old record is looked up.
\<close>

definition action_fix_link :: "(string \<Rightarrow> bool) \<Rightarrow> string \<Rightarrow> annotator \<Rightarrow> error option \<times> annotator" where
  "action_fix_link status_200 identifier_and_link st =
     (case split_space identifier_and_link of
        None \<Rightarrow> (Some ValueError, st)
      | Some (ident, raw) \<Rightarrow>
          (case py_int ident of
             None \<Rightarrow> (Some ValueError, st)
           | Some i \<Rightarrow>
               (let l = normalize_link raw
                in if validate_link status_200 l
                   then (case get_annotation (annotations st) i of
                           None \<Rightarrow> (Some NotFound, st)
                         | Some old_annotation \<Rightarrow>
                             (let new_annotation =
                                    reparse (create_link (annotations st) l old_annotation)
                              in (None,
                                  st\<lparr>annotations :=
                                       save_annotation (annotations st) new_annotation\<rparr>)))
                   else (None, print_warning (NOT_IN_WIKIPEDIA l) st))))"

text \<open>\<open>action_set_context\<close>: the only \<open>try\<close> of the file; any integer is stored.\<close>

definition action_set_context :: "string \<Rightarrow> annotator \<Rightarrow> error option \<times> annotator" where
  "action_set_context context_size st =
     (case py_int context_size of
        Some n \<Rightarrow> (None, st\<lparr>CONTEXT_SIZE := n\<rparr>)
      | None \<Rightarrow> (None, st\<lparr>out := out st @ [ContextSizeWarning]\<rparr>))"

text \<open>
  \<open>status\<close>: one line for each corpus file, then the line of the corpus, whose percentage
  is \<open>round((corpus_types_done/corpus_types) * 100)\<close>; the division raises
  \<open>ZeroDivisionError\<close> when \<open>corpus_types\<close> is 0.
\<close>

fun status_files :: "corpus_file list \<Rightarrow> nat \<Rightarrow> nat \<Rightarrow> printed list \<Rightarrow> nat \<times> nat \<times> printed list" where
  "status_files [] corpus_types corpus_types_done acc = (corpus_types, corpus_types_done, acc)"
| "status_files (corpus_file # rest) corpus_types corpus_types_done acc =
     (let (total_types, types_done, percent_done_types) = file_status corpus_file
      in status_files rest (corpus_types + total_types) (corpus_types_done + types_done)
           (acc @ [FileStatus (name corpus_file) (entity_type_count corpus_file)
                     (py_round percent_done_types)]))"

definition status :: "annotator \<Rightarrow> error option \<times> annotator" where
  "status st =
     (let (corpus_types, corpus_types_done, lines) =
            status_files (get_files (corpus st)) 0 0
              (out st @ [StatusHeader (annotations_folder (corpus st))])
      in if corpus_types = 0 then (Some ZeroDivisionError, st\<lparr>out := lines\<rparr>)
         else (None,
               st\<lparr>out := lines @
                    [CorpusStatus corpus_types
                       (py_round (of_nat corpus_types_done / of_nat corpus_types * 100))]\<rparr>))"

subsection \<open>The command loop\<close>

text \<open>
  \<open>print_help\<close> prints the file \<open>help.txt\<close>, whose text is not modelled.
  \<open>action_backup\<close> calls \<open>LinkAnnotations.backup()\<close>. Modelled from the spec: the backup is
  a copy of the annotations file (section 4.2); the state of the tool is as before.
\<close>

definition print_help :: "annotator \<Rightarrow> error option \<times> annotator" where
  "print_help st = (None, st\<lparr>out := out st @ [HelpText]\<rparr>)"

definition action_backup :: "annotator \<Rightarrow> error option \<times> annotator" where
  "action_backup st = (None, st)"

text \<open>
  \<open>action_print_annotations\<close>: all annotations, or those whose text contains the search
  term, both in lower case (\<open>str.lower\<close> and \<open>in\<close>, for ASCII text).
\<close>

definition lower :: "string \<Rightarrow> string" where
  "lower s =
     map (\<lambda>ch. let k = (of_char ch :: nat) in if 65 \<le> k \<and> k \<le> 90 then char_of (k + 32) else ch) s"

fun contains :: "string \<Rightarrow> string \<Rightarrow> bool" where
  "contains s [] = (s = [])"
| "contains s (ch # cs) = (take (length s) (ch # cs) = s \<or> contains s cs)"

definition action_print_annotations :: "string option \<Rightarrow> annotator \<Rightarrow> error option \<times> annotator" where
  "action_print_annotations search_term st =
     (case search_term of
        None \<Rightarrow>
          (None, st\<lparr>out := out st @ AnnotationsHeader None # map AnnotationLine (annotations st)\<rparr>)
      | Some s \<Rightarrow>
          (None,
           st\<lparr>out := out st @ AnnotationsHeader (Some s) #
                  map AnnotationLine
                    (filter (\<lambda>annotation. contains (lower s) (lower (ann_text annotation)))
                       (annotations st))\<rparr>))"

definition debug_loop :: "string \<Rightarrow> string option \<Rightarrow> annotator \<Rightarrow> annotator" where
  "debug_loop message action st =
     (if DEBUG st
      then st\<lparr>out := out st @ [DebugLoop message action (link_suggestion st) (next_entity st)]\<rparr>
      else st)"

text \<open>
  The \<open>if\<close> chain of \<open>loop\<close> below the test for quitting: the command that an action
  selects. \<open>action\<close> is \<open>None\<close> before the first prompt.
\<close>

definition dispatch :: "(string \<Rightarrow> bool) \<Rightarrow> string option \<Rightarrow> annotator \<Rightarrow> error option \<times> annotator" where
  "dispatch status_200 action st =
     (case action of
        None \<Rightarrow> status st
      | Some a \<Rightarrow>
          if a \<in> set [''?'', ''h'', ''help''] then print_help st
          else if a \<in> set [''s'', ''status''] then status st
          else if a \<in> set [''b'', ''backup''] then action_backup st
          else if a \<in> set [[], ''n''] then action_print_next st
          else if a = ''a'' then action_print_annotations None st
          else if a = ''y'' then action_accept_hint st
          else if take 2 a = ''f '' then action_fix_link status_200 (drop 2 a) st
          else if take 2 a = ''a '' then action_print_annotations (Some (drop 2 a)) st
          else if take 2 a = ''c '' then action_set_context (drop 2 a) st
          else if a = ''l'' \<or> take 2 a = ''l ''
            then action_store_link status_200 (if a = ''l'' then ''-'' else strip (drop 2 a)) st
          else (None, print_warning UNKNOWN_COMMAND st))"

text \<open>
  \<open>loop\<close>, run on the lines that the user types. One round of the \<open>while\<close> is \<open>loop_round\<close>:
  it quits, or ends with the exception that the command raised, since nothing catches it,
  or goes on to the prompt. \<open>input\<close> raises \<open>EOFError\<close> when no line is left. The line read
  is stripped and is the next action.
\<close>

datatype exit = Quit | Crashed error

definition loop_round :: "(string \<Rightarrow> bool) \<Rightarrow> string option \<Rightarrow> annotator \<Rightarrow> exit option \<times> annotator" where
  "loop_round status_200 action st =
     (let st0 = debug_loop ''START OF LOOP:'' action st
      in if action \<in> set [Some ''q'', Some ''quit'', Some ''exit''] then (Some Quit, st0)
         else (case dispatch status_200 action st0 of
                 (Some e, st1) \<Rightarrow> (Some (Crashed e), st1)
               | (None, st1) \<Rightarrow> (None, debug_loop ''END OF LOOP, BEFORE PROMPT:'' action st1)))"

fun loop_from :: "(string \<Rightarrow> bool) \<Rightarrow> string list \<Rightarrow> string option \<Rightarrow> annotator \<Rightarrow> exit \<times> annotator" where
  "loop_from status_200 [] action st =
     (case loop_round status_200 action st of
        (Some x, st1) \<Rightarrow> (x, st1)
      | (None, st1) \<Rightarrow> (Crashed EOFError, st1))"
| "loop_from status_200 (line # rest) action st =
     (case loop_round status_200 action st of
        (Some x, st1) \<Rightarrow> (x, st1)
      | (None, st1) \<Rightarrow> loop_from status_200 rest (Some (strip line)) st1)"

definition loop :: "(string \<Rightarrow> bool) \<Rightarrow> string list \<Rightarrow> annotator \<Rightarrow> exit \<times> annotator" where
  "loop status_200 lines st = loop_from status_200 lines None (st\<lparr>link_suggestion := None\<rparr>)"

subsection \<open>Notions used in the statements\<close>

text \<open>The distinct elements of a list, in the order of their first occurrence.\<close>

definition firsts :: "'a list \<Rightarrow> 'a list" where
  "firsts xs = rev (remdups (rev xs))"


subsection \<open>Example states\<close>

definition example_type :: "string \<Rightarrow> string \<Rightarrow> string option \<Rightarrow> entity_type" where
  "example_type n t l =
     \<lparr>et_text = t, et_class = ''NE'', link = l,
      entities = [\<lparr>file_name = n, p1 = 0, p2 = length t\<rparr>]\<rparr>"

definition example_file :: "string \<Rightarrow> (string \<times> string option) list \<Rightarrow> string \<times> corpus_file" where
  "example_file n ts =
     (n, \<lparr>name = n, source_text = concat (map fst ts),
          data = map (\<lambda>(t, l). (t, example_type n t l)) ts\<rparr>)"

text \<open>
  A corpus in which \<open>Jim\<close> has the links \<open>u2\<close>, \<open>u1\<close>, \<open>u1\<close> in three files and is not yet
  annotated in a fourth, \<open>Bob\<close> has the link \<open>u3\<close> in two files, \<open>Acme\<close> has the empty
  link, and \<open>Ann\<close> has no link.
\<close>

definition votes_corpus :: corpus where
  "votes_corpus =
     \<lparr>annotations_folder = ''annotations'',
      files = [example_file ''D1'' [(''Jim'', Some ''u2''), (''Bob'', Some ''u3'')],
               example_file ''D2'' [(''Jim'', Some ''u1''), (''Acme'', Some [])],
               example_file ''D3'' [(''Ann'', None)],
               example_file ''D4'' [(''Jim'', Some ''u1''), (''Bob'', Some ''u3'')],
               example_file ''D5'' [(''Jim'', None)]],
      cursor = 0\<rparr>"

text \<open>
  Two files that both mention \<open>Acme\<close>, not yet annotated; the entity type of the first file
  is the current one, without a suggestion.
\<close>

definition acme_corpus :: corpus where
  "acme_corpus =
     \<lparr>annotations_folder = ''annotations'',
      files = [example_file ''D1'' [(''Acme'', None)], example_file ''D2'' [(''Acme'', None)]],
      cursor = 1\<rparr>"

definition acme_state :: annotator where
  "acme_state =
     \<lparr>corpus = acme_corpus, next_entity = Some (''D1'', ''Acme''), link_suggestion = None,
      annotations = [], CONTEXT_SIZE = 3, DEBUG = False, out = []\<rparr>"

text \<open>The tool started on a folder without files.\<close>

definition empty_state :: annotator where
  "empty_state =
     \<lparr>corpus = \<lparr>annotations_folder = ''annotations'', files = [], cursor = 0\<rparr>,
      next_entity = None, link_suggestion = None, annotations = [], CONTEXT_SIZE = 50,
      DEBUG = False, out = []\<rparr>"

section \<open>Properties\<close>

subsection \<open>The counter and its most common element\<close>

lemma firsts_snoc: "firsts (xs @ [x]) = (if x \<in> set xs then firsts xs else firsts xs @ [x])"
  by (simp add: firsts_def)

lemma firsts_Cons: "firsts (x # xs) = x # filter (\<lambda>y. y \<noteq> x) (firsts xs)"
proof -
  have "remdups (ys @ [x]) = filter (\<lambda>y. y \<noteq> x) (remdups ys) @ [x]" for ys
    by (induction ys) auto
  then show ?thesis by (simp add: firsts_def rev_filter)
qed

lemma set_firsts: "set (firsts xs) = set xs"
  by (simp add: firsts_def)

lemma distinct_firsts: "distinct (firsts xs)"
  by (simp add: firsts_def)

lemma count_add_map:
  "distinct ks \<Longrightarrow> count_add x (map (\<lambda>k. (k, g k)) ks) =
     (if x \<in> set ks then map (\<lambda>k. (k, if k = x then Suc (g k) else g k)) ks
      else map (\<lambda>k. (k, g k)) ks @ [(x, 1)])"
  by (induction ks) auto

lemma Counter_snoc: "Counter (xs @ [x]) = count_add x (Counter xs)"
  by (simp add: Counter_def)

lemma Counter_closed: "Counter xs = map (\<lambda>k. (k, count_list xs k)) (firsts xs)"
proof (induction xs rule: rev_induct)
  case Nil
  then show ?case by (simp add: Counter_def firsts_def)
next
  case (snoc x xs)
  show ?case
    by (auto simp add: Counter_snoc snoc count_add_map distinct_firsts set_firsts firsts_snoc)
qed

lemma most_common_head_max:
  assumes "most_common items = h # rest"
  shows "\<forall>y \<in> set items. snd y \<le> snd h"
proof -
  define ys where "ys = sort_key snd (rev items)"
  from assms have "rev ys = h # rest" by (simp add: most_common_def ys_def)
  then have ys: "ys = rev rest @ [h]" by (simp add: rev_swap)
  have "sorted (map snd ys)" by (simp add: ys_def)
  with ys have "\<forall>y \<in> set (rev rest). snd y \<le> snd h" by (simp add: sorted_append)
  moreover have "set items = set ys" by (simp add: ys_def)
  ultimately show ?thesis using ys by auto
qed

lemma most_common_head_first:
  assumes "most_common items = h # rest"
  shows "h = hd (filter (\<lambda>y. snd y = snd h) items)"
proof -
  have "filter (\<lambda>y. snd y = snd h) items = filter (\<lambda>y. snd y = snd h) (most_common items)"
    by (simp add: most_common_def rev_filter [symmetric] sort_key_stable)
  also have "\<dots> = h # filter (\<lambda>y. snd y = snd h) rest"
    by (simp add: assms)
  finally show ?thesis by simp
qed

lemma set_most_common: "set (most_common items) = set items"
  by (simp add: most_common_def)

lemma most_common_Nil: "most_common items = [] \<longleftrightarrow> items = []"
proof -
  have "length (most_common items) = length items" by (simp add: most_common_def)
  then show ?thesis by (metis length_0_conv)
qed

lemma hd_filter_takeWhile:
  "filter P xs \<noteq> [] \<Longrightarrow> x = hd (filter P xs) \<Longrightarrow> y \<in> set (takeWhile (\<lambda>y. y \<noteq> x) xs) \<Longrightarrow> \<not> P y"
proof (induction xs)
  case Nil
  then show ?case by simp
next
  case (Cons a xs)
  show ?case
  proof (cases "P a")
    case True
    with Cons.prems(2) have "x = a" by simp
    with Cons.prems(3) show ?thesis by simp
  next
    case False
    with Cons.prems have "filter P xs \<noteq> []" "x = hd (filter P xs)" by simp_all
    moreover from Cons.prems(3) have "y = a \<or> y \<in> set (takeWhile (\<lambda>y. y \<noteq> x) xs)"
      by (cases "a = x") simp_all
    ultimately show ?thesis using False Cons.IH by blast
  qed
qed

lemma takeWhile_firsts:
  "set (takeWhile (\<lambda>y. y \<noteq> l) xs) \<subseteq> set (takeWhile (\<lambda>y. y \<noteq> l) (firsts xs))"
proof (induction xs)
  case Nil
  then show ?case by (simp add: firsts_def)
next
  case (Cons x xs)
  have tw: "takeWhile (\<lambda>y. y \<noteq> l) (filter (\<lambda>y. y \<noteq> x) zs) = filter (\<lambda>y. y \<noteq> x) (takeWhile (\<lambda>y. y \<noteq> l) zs)"
    if "x \<noteq> l" for zs
    using that by (induction zs) auto
  show ?case
  proof (cases "x = l")
    case True
    then show ?thesis by (simp add: firsts_Cons)
  next
    case False
    then show ?thesis using Cons by (auto simp add: firsts_Cons tw)
  qed
qed

text \<open>The head of \<open>most_common (Counter S)\<close>.\<close>

lemma most_common_Counter_head:
  assumes "most_common (Counter S) = (l, n) # rest"
  shows "l \<in> set S" and "n = count_list S l"
    and "\<And>l'. count_list S l' \<le> count_list S l"
    and "\<And>l'. l' \<in> set (takeWhile (\<lambda>x. x \<noteq> l) S) \<Longrightarrow> count_list S l' < count_list S l"
proof -
  let ?g = "\<lambda>k. (k, count_list S k)"
  have "(l, n) \<in> set (most_common (Counter S))" by (simp add: assms)
  then have mem: "(l, n) \<in> set (map ?g (firsts S))"
    by (simp only: set_most_common Counter_closed)
  then show l: "l \<in> set S" by (auto simp: set_firsts)
  from mem show n: "n = count_list S l" by auto
  have max: "\<forall>y \<in> set (Counter S). snd y \<le> n"
    using most_common_head_max [OF assms] by simp
  show le: "count_list S l' \<le> count_list S l" for l'
  proof (cases "l' \<in> set S")
    case True
    then have "?g l' \<in> set (Counter S)" by (simp add: Counter_closed set_firsts)
    with max n show ?thesis by fastforce
  next
    case False
    then show ?thesis by (simp add: count_list_0_iff)
  qed
  show "count_list S l' < count_list S l" if "l' \<in> set (takeWhile (\<lambda>x. x \<noteq> l) S)" for l'
  proof -
    let ?P = "\<lambda>k. count_list S k = n"
    have "(l, n) = hd (filter (\<lambda>y. snd y = snd (l, n)) (Counter S))"
      by (rule most_common_head_first [OF assms])
    also have "filter (\<lambda>y. snd y = snd (l, n)) (Counter S) = map ?g (filter ?P (firsts S))"
      by (simp add: Counter_closed filter_map comp_def)
    finally have hd: "(l, n) = hd (map ?g (filter ?P (firsts S)))" .
    have "l \<in> set (firsts S)" "?P l"
      using l n by (simp_all add: set_firsts)
    then have ne: "filter ?P (firsts S) \<noteq> []"
      unfolding filter_empty_conv by blast
    have "hd (map ?g (filter ?P (firsts S))) = ?g (hd (filter ?P (firsts S)))"
      using ne by (rule hd_map)
    with hd have "(l, n) = ?g (hd (filter ?P (firsts S)))" by (rule trans)
    then have eq: "l = hd (filter ?P (firsts S))" by (rule Pair_inject)
    have before: "l' \<in> set (takeWhile (\<lambda>x. x \<noteq> l) (firsts S))"
      using that takeWhile_firsts [of l S] by (rule rev_subsetD)
    have "count_list S l' \<noteq> n"
      by (rule hd_filter_takeWhile [OF ne eq before])
    moreover have "count_list S l' \<le> n"
      using le [of l'] by (simp only: n)
    ultimately have "count_list S l' < n" by linarith
    then show ?thesis by (simp only: n)
  qed
qed

lemma most_common_Counter_Nil: "most_common (Counter S) = [] \<longleftrightarrow> S = []"
proof -
  have "firsts S = [] \<longleftrightarrow> S = []"
    using set_firsts [of S] by (metis set_empty)
  then show ?thesis
    by (simp add: most_common_Nil Counter_closed)
qed

lemma suggest_link_None: "suggest_link c s = None \<longleftrightarrow> suggestions c s = []"
proof (cases "most_common (Counter (suggestions c s))")
  case Nil
  then have "suggest_link c s = None" by (simp add: suggest_link_def)
  moreover from Nil have "suggestions c s = []" by (simp only: most_common_Counter_Nil)
  ultimately show ?thesis by simp
next
  case (Cons h rest)
  then have "suggest_link c s = Some (fst h)"
    by (cases h) (simp add: suggest_link_def)
  moreover have "suggestions c s \<noteq> []"
  proof
    assume "suggestions c s = []"
    then have "most_common (Counter (suggestions c s)) = []"
      by (simp only: most_common_Counter_Nil)
    with Cons show False by simp
  qed
  ultimately show ?thesis by simp
qed

lemma suggest_link_Some:
  assumes "suggest_link c s = Some l"
  shows "\<exists>n rest. most_common (Counter (suggestions c s)) = (l, n) # rest"
  using assms by (cases "most_common (Counter (suggestions c s))") (auto simp add: suggest_link_def)

lemma set_collect_suggestions:
  "set (collect_suggestions fs s) =
     {l. \<exists>f \<in> set fs. \<exists>e. map_of (data f) s = Some e \<and> link e = Some l}"
  by (induction fs) (auto split: option.splits)

lemma suggest_link_Some_props:
  assumes "suggest_link c s = Some l"
  shows "l \<in> set (suggestions c s) \<and>
      (\<forall>l'. count_list (suggestions c s) l' \<le> count_list (suggestions c s) l) \<and>
      (\<forall>l' \<in> set (takeWhile (\<lambda>x. x \<noteq> l) (suggestions c s)).
         count_list (suggestions c s) l' < count_list (suggestions c s) l)"
proof -
  from assms obtain n rest where h: "most_common (Counter (suggestions c s)) = (l, n) # rest"
    using suggest_link_Some by blast
  have a: "l \<in> set (suggestions c s)" by (rule most_common_Counter_head(1) [OF h])
  have b: "\<forall>l'. count_list (suggestions c s) l' \<le> count_list (suggestions c s) l"
    by (rule allI) (rule most_common_Counter_head(3) [OF h])
  have c: "\<forall>l' \<in> set (takeWhile (\<lambda>x. x \<noteq> l) (suggestions c s)).
         count_list (suggestions c s) l' < count_list (suggestions c s) l"
    by (rule ballI) (rule most_common_Counter_head(4) [OF h])
  show ?thesis by (rule conjI [OF a conjI [OF b c]])
qed

lemma suggest_link_unanimous:
  assumes "suggestions c s \<noteq> []" and "set (suggestions c s) \<subseteq> {l}"
  shows "suggest_link c s = Some l"
proof -
  from assms(1) have "suggest_link c s \<noteq> None" by (simp only: suggest_link_None not_False_eq_True)
  then obtain l' where l': "suggest_link c s = Some l'" by blast
  have "l' \<in> set (suggestions c s)"
    using suggest_link_Some_props [OF l'] by (rule conjunct1)
  with assms(2) have "l' = l" by blast
  with l' show ?thesis by simp
qed

subsection \<open>The most frequent link\<close>

lemma votes_corpus_Jim: "suggestions votes_corpus ''Jim'' = [''u2'', ''u1'', ''u1'']"
  by (simp add: suggestions_def get_files_def votes_corpus_def example_file_def example_type_def)

lemma votes_corpus_Bob: "suggestions votes_corpus ''Bob'' = [''u3'', ''u3'']"
  by (simp add: suggestions_def get_files_def votes_corpus_def example_file_def example_type_def)

lemma votes_corpus_Ann: "suggestions votes_corpus ''Ann'' = []"
  by (simp add: suggestions_def get_files_def votes_corpus_def example_file_def example_type_def)

lemma votes_corpus_Acme: "suggestions votes_corpus ''Acme'' = [[]]"
  by (simp add: suggestions_def get_files_def votes_corpus_def example_file_def example_type_def)

text \<open>
  Claim C5. \<open>suggest_link\<close> returns \<open>None\<close> exactly when no corpus file holds a link other
  than \<open>None\<close> for the surface text. Otherwise it returns one of the links collected for
  that text, no collected link is more frequent, and every link met in the scan before its
  first occurrence is strictly less frequent (ties go to the link encountered first). When
  all collected links are one and the same link, that link is returned. The links
  collected are those of the entries, one for each corpus file, that the files' dictionaries
  hold for exactly that surface text.
\<close>

theorem suggest_link_most_frequent:
  "(suggest_link c s = None \<longleftrightarrow> suggestions c s = []) \<and>
   (\<forall>l. suggest_link c s = Some l \<longrightarrow>
      l \<in> set (suggestions c s) \<and>
      (\<forall>l'. count_list (suggestions c s) l' \<le> count_list (suggestions c s) l) \<and>
      (\<forall>l' \<in> set (takeWhile (\<lambda>x. x \<noteq> l) (suggestions c s)).
         count_list (suggestions c s) l' < count_list (suggestions c s) l)) \<and>
   (\<forall>l. suggestions c s \<noteq> [] \<and> set (suggestions c s) \<subseteq> {l} \<longrightarrow> suggest_link c s = Some l) \<and>
   set (suggestions c s) =
     {l. \<exists>f \<in> set (get_files c). \<exists>e. map_of (data f) s = Some e \<and> link e = Some l}"
proof -
  have a: "suggest_link c s = None \<longleftrightarrow> suggestions c s = []" by (rule suggest_link_None)
  have b: "\<forall>l. suggest_link c s = Some l \<longrightarrow>
      l \<in> set (suggestions c s) \<and>
      (\<forall>l'. count_list (suggestions c s) l' \<le> count_list (suggestions c s) l) \<and>
      (\<forall>l' \<in> set (takeWhile (\<lambda>x. x \<noteq> l) (suggestions c s)).
         count_list (suggestions c s) l' < count_list (suggestions c s) l)"
    by (intro allI impI) (rule suggest_link_Some_props)
  have c: "\<forall>l. suggestions c s \<noteq> [] \<and> set (suggestions c s) \<subseteq> {l} \<longrightarrow> suggest_link c s = Some l"
    by (intro allI impI) (erule conjE, rule suggest_link_unanimous)
  have d: "set (suggestions c s) =
     {l. \<exists>f \<in> set (get_files c). \<exists>e. map_of (data f) s = Some e \<and> link e = Some l}"
    by (simp only: suggestions_def set_collect_suggestions)
  show ?thesis by (rule conjI [OF a conjI [OF b conjI [OF c d]]])
qed

theorem suggest_link_most_frequent_witness:
  "suggest_link votes_corpus ''Jim'' = Some ''u1'' \<and>
   suggestions votes_corpus ''Jim'' = [''u2'', ''u1'', ''u1''] \<and>
   count_list (suggestions votes_corpus ''Jim'') ''u2''
     < count_list (suggestions votes_corpus ''Jim'') ''u1'' \<and>
   suggest_link votes_corpus ''Bob'' = Some ''u3'' \<and>
   suggest_link votes_corpus ''Ann'' = None"
proof -
  have jim: "suggest_link votes_corpus ''Jim'' = Some ''u1''"
    by (simp add: suggest_link_def votes_corpus_Jim Counter_def most_common_def)
  have "\<forall>l' \<in> set (takeWhile (\<lambda>x. x \<noteq> ''u1'') (suggestions votes_corpus ''Jim'')).
          count_list (suggestions votes_corpus ''Jim'') l'
            < count_list (suggestions votes_corpus ''Jim'') ''u1''"
    using suggest_link_most_frequent [of votes_corpus "''Jim''"] jim by blast
  then have less: "count_list (suggestions votes_corpus ''Jim'') ''u2''
     < count_list (suggestions votes_corpus ''Jim'') ''u1''"
    by (simp add: votes_corpus_Jim)
  have "suggestions votes_corpus ''Bob'' \<noteq> [] \<and> set (suggestions votes_corpus ''Bob'') \<subseteq> {''u3''}"
    by (simp add: votes_corpus_Bob)
  then have bob: "suggest_link votes_corpus ''Bob'' = Some ''u3''"
    using suggest_link_most_frequent [of votes_corpus "''Bob''"] by blast
  have ann: "suggest_link votes_corpus ''Ann'' = None"
    using suggest_link_most_frequent [of votes_corpus "''Ann''"] by (simp add: votes_corpus_Ann)
  from jim less bob ann show ?thesis by (simp add: votes_corpus_Jim)
qed

subsection \<open>One vote for each file\<close>








subsection \<open>The traversal and \<open>action_print_next\<close>\<close>









subsection \<open>Storing a link\<close>





lemma store_or_warn_valid:
  "validate_link status_200 l \<Longrightarrow>
     store_or_warn status_200 l r st =
       st\<lparr>corpus := set_link (corpus st) r l,
          annotations := add_link (annotations st) (set_link (corpus st) r l) r l\<rparr>"
  by (simp add: store_or_warn_def Let_def)





subsection \<open>Storing a link: a run\<close>







subsection \<open>Accepting a suggestion that is not there\<close>






subsection \<open>The empty link as a suggestion\<close>

lemma print_contexts_lines:
  "x \<in> set (snd (print_contexts c n t es acc)) \<Longrightarrow> x \<in> set acc \<or> (\<exists>l r. x = ContextLine l t r)"
proof (induction es arbitrary: acc)
  case Nil
  then show ?case by simp
next
  case (Cons e es)
  show ?case
  proof (cases "map_of (files c) (file_name e)")
    case None
    with Cons.prems show ?thesis by simp
  next
    case (Some f)
    obtain left right where g: "get_context n f e = (left, right)" by (cases "get_context n f e")
    let ?line = "ContextLine (replicate (nat (n - int (length left))) (CHR '' '') @ left) t right"
    from Cons.prems have "x \<in> set (snd (print_contexts c n t es (acc @ [?line])))"
      by (simp add: Some g)
    then have "x \<in> set (acc @ [?line]) \<or> (\<exists>l r. x = ContextLine l t r)"
      by (rule Cons.IH)
    then show ?thesis by auto
  qed
qed

lemma empty_suggestion_not_printed:
  assumes "LinkSuggestion [] \<in> set (out (snd (action_print_next st)))"
  shows "LinkSuggestion [] \<in> set (out st)"
proof -
  obtain a c' where cn: "corpus_next (corpus st) = (a, c')" by (cases "corpus_next (corpus st)")
  show ?thesis
  proof (cases a)
    case None
    with cn assms show ?thesis by (simp add: action_print_next_def)
  next
    case (Some x)
    obtain r et where x: "x = (r, et)" by (cases x)
    let ?acc = "out st @ [EntityHeader (et_text et) (et_class et)]"
    let ?pc = "print_contexts c' (CONTEXT_SIZE st) (et_text et) (entities et) ?acc"
    obtain err lines where pc: "?pc = (err, lines)" by (cases ?pc)
    have lines: "LinkSuggestion [] \<in> set lines \<Longrightarrow> LinkSuggestion [] \<in> set (out st)"
    proof -
      assume "LinkSuggestion [] \<in> set lines"
      then have "LinkSuggestion [] \<in> set (snd ?pc)" by (simp add: pc)
      then have "LinkSuggestion [] \<in> set ?acc \<or> (\<exists>l r. LinkSuggestion [] = ContextLine l (et_text et) r)"
        by (rule print_contexts_lines)
      then show ?thesis by simp
    qed
    show ?thesis
    proof (cases err)
      case None
      from assms cn Some x pc None
      have "LinkSuggestion [] \<in> set lines \<or>
          LinkSuggestion [] \<in> set (case suggest_link c' (et_text et) of None \<Rightarrow> []
                                    | Some l \<Rightarrow> if l = [] then [] else [LinkSuggestion l])"
        by (simp add: action_print_next_def Let_def)
      moreover have "LinkSuggestion [] \<notin> set (case suggest_link c' (et_text et) of None \<Rightarrow> []
                                    | Some l \<Rightarrow> if l = [] then [] else [LinkSuggestion l])"
        by (cases "suggest_link c' (et_text et)") auto
      ultimately show ?thesis using lines by blast
    next
      case (Some e)
      from assms cn \<open>a = Some x\<close> x pc Some have "LinkSuggestion [] \<in> set lines"
        by (simp add: action_print_next_def Let_def)
      then show ?thesis by (rule lines)
    qed
  qed
qed

text \<open>
  In the corpus of the votes the only link of \<open>Acme\<close> is the empty link, and the suggestion
  for \<open>Acme\<close> is the empty string. A run: the user enters \<open>-\<close> for \<open>Acme\<close> in the first
  file. The link stored is the empty string, and the suggestion computed for the \<open>Acme\<close>
  of the second file is the empty string, not \<open>None\<close>.
\<close>

theorem suggest_link_sentinel_counterexample:
  "suggest_link votes_corpus ''Acme'' = Some [] \<and>
   normalize_link ''-'' = [] \<and>
   fst (action_store_link (\<lambda>l. False) ''-'' acme_state) = None \<and>
   deref (corpus (snd (action_store_link (\<lambda>l. False) ''-'' acme_state))) (''D1'', ''Acme'')
     = Some (example_type ''D1'' ''Acme'' (Some [])) \<and>
   deref (corpus (snd (action_store_link (\<lambda>l. False) ''-'' acme_state))) (''D2'', ''Acme'')
     = Some (example_type ''D2'' ''Acme'' None) \<and>
   suggest_link (corpus (snd (action_store_link (\<lambda>l. False) ''-'' acme_state))) ''Acme'' = Some [] \<and>
   suggest_link (corpus (snd (action_store_link (\<lambda>l. False) ''-'' acme_state))) ''Acme'' \<noteq> None \<and>
   link_suggestion (snd (action_store_link (\<lambda>l. False) ''-'' acme_state)) = Some []"
  by code_simp

text \<open>
  Claim C2, as the code has it. For a surface text whose entries hold the empty link in at
  least one corpus file and no other link in any file, \<open>suggest_link\<close> returns the empty
  link itself, not \<open>None\<close>: the scan keeps every link that is not \<open>None\<close>, and the empty
  string is not \<open>None\<close>. \<open>action_print_next\<close> never prints a suggestion line for the
  empty link.
\<close>

theorem suggest_link_returns_sentinel:
  assumes "\<exists>f \<in> set (get_files c). \<exists>e. map_of (data f) s = Some e \<and> link e = Some []"
    and "\<forall>f \<in> set (get_files c). \<forall>e. map_of (data f) s = Some e \<longrightarrow> link e = None \<or> link e = Some []"
  shows "suggest_link c s = Some [] \<and>
         (\<forall>st. LinkSuggestion [] \<in> set (out (snd (action_print_next st)))
                 \<longrightarrow> LinkSuggestion [] \<in> set (out st))"
proof -
  have set: "set (suggestions c s) =
     {l. \<exists>f \<in> set (get_files c). \<exists>e. map_of (data f) s = Some e \<and> link e = Some l}"
    by (simp only: suggestions_def set_collect_suggestions)
  from assms(1) have "[] \<in> set (suggestions c s)" unfolding set by blast
  then have ne: "suggestions c s \<noteq> []" by auto
  have sub: "set (suggestions c s) \<subseteq> {[]}"
    unfolding set using assms(2) by fastforce
  have a: "suggest_link c s = Some []" by (rule suggest_link_unanimous [OF ne sub])
  have b: "\<forall>st. LinkSuggestion [] \<in> set (out (snd (action_print_next st)))
                 \<longrightarrow> LinkSuggestion [] \<in> set (out st)"
    by (intro allI impI) (rule empty_suggestion_not_printed)
  show ?thesis by (rule conjI [OF a b])
qed

theorem suggest_link_returns_sentinel_witness:
  "(\<exists>f \<in> set (get_files votes_corpus). \<exists>e. map_of (data f) ''Acme'' = Some e \<and> link e = Some []) \<and>
   suggest_link votes_corpus ''Acme'' = Some []"
proof -
  have ex: "\<exists>f \<in> set (get_files votes_corpus). \<exists>e. map_of (data f) ''Acme'' = Some e \<and> link e = Some []"
    by (simp add: get_files_def votes_corpus_def example_file_def example_type_def)
  have all: "\<forall>f \<in> set (get_files votes_corpus). \<forall>e. map_of (data f) ''Acme'' = Some e
      \<longrightarrow> link e = None \<or> link e = Some []"
    by (simp add: get_files_def votes_corpus_def example_file_def example_type_def)
  from suggest_link_returns_sentinel [OF ex all] have "suggest_link votes_corpus ''Acme'' = Some []"
    by (rule conjunct1)
  with ex show ?thesis by (rule conjI)
qed

subsection \<open>Normalization\<close>

lemma take3_append:
  assumes "take 3 xs = ''://''"
  shows "take 3 (xs @ ys) = ''://''"
proof -
  from assms have "length (take 3 xs) = 3" by simp
  then have "3 \<le> length xs" by simp
  then have "take 3 (xs @ ys) = take 3 xs" by simp
  with assms show ?thesis by simp
qed

lemma has_scheme_append: "has_scheme xs \<Longrightarrow> has_scheme (xs @ ys)"
proof (induction xs)
  case Nil
  then show ?case by simp
next
  case (Cons c cs)
  from Cons.prems have "take 3 (c # cs) = ''://'' \<or> has_scheme cs" by simp
  then show ?case
  proof
    assume "take 3 (c # cs) = ''://''"
    then have "take 3 ((c # cs) @ ys) = ''://''" by (rule take3_append)
    then show ?thesis by simp
  next
    assume "has_scheme cs"
    then have "has_scheme (cs @ ys)" by (rule Cons.IH)
    then show ?thesis by simp
  qed
qed

lemma has_scheme_base_url: "has_scheme (base_url @ t)"
proof -
  have "has_scheme base_url" by code_simp
  then show ?thesis by (rule has_scheme_append)
qed

text \<open>
  Claim C8. \<open>normalize_link\<close> is idempotent, for every input string: the dash and the
  empty string give the empty link, which is kept; a full URL is kept; a bare title
  becomes a full URL, which is kept.
\<close>

theorem normalize_link_idempotent: "normalize_link (normalize_link x) = normalize_link x"
proof (cases "x = [] \<or> x = ''-''")
  case True
  then show ?thesis by (auto simp add: normalize_link_def)
next
  case False
  show ?thesis
  proof (cases "has_scheme x")
    case True
    with False show ?thesis by (simp add: normalize_link_def)
  next
    case no: False
    let ?t = "map (\<lambda>ch. if ch = CHR '' '' then CHR ''_'' else ch) x"
    have n: "normalize_link x = base_url @ ?t"
      using False no by (simp add: normalize_link_def)
    have "base_url @ ?t \<noteq> []" "base_url @ ?t \<noteq> ''-''"
      by (simp_all add: base_url_def)
    then have "normalize_link (base_url @ ?t) = base_url @ ?t"
      using has_scheme_base_url [of ?t] by (simp add: normalize_link_def)
    then show ?thesis by (simp only: n)
  qed
qed

subsection \<open>The status report\<close>

lemma status_files_totals:
  "status_files fs ct cd acc =
     (ct + sum_list (map (\<lambda>f. length (data f)) fs),
      cd + sum_list (map (\<lambda>f. length (filter (\<lambda>(t, e). link e \<noteq> None) (data f))) fs),
      acc @ map (\<lambda>f. FileStatus (name f) (entity_type_count f) (py_round (snd (snd (file_status f))))) fs)"
  by (induction fs arbitrary: ct cd acc) (simp_all add: file_status_def Let_def)

lemma status_raises_iff:
  "fst (status st) = Some ZeroDivisionError \<longleftrightarrow> sum_list (map (\<lambda>f. length (data f)) (get_files (corpus st))) = 0"
  by (simp add: status_def status_files_totals)

lemma py_round_of_int: "py_round (of_int k) = k"
  by (simp add: py_round_def)

lemma status_fully_annotated:
  assumes "\<forall>f \<in> set (get_files (corpus st)). \<forall>(t, e) \<in> set (data f). link e \<noteq> None"
    and "sum_list (map (\<lambda>f. length (data f)) (get_files (corpus st))) \<noteq> 0"
  shows "\<exists>lines. status st =
           (None, st\<lparr>out := lines @
              [CorpusStatus (sum_list (map (\<lambda>f. length (data f)) (get_files (corpus st)))) 100]\<rparr>)"
proof -
  have "length (filter (\<lambda>(t, e). link e \<noteq> None) (data f)) = length (data f)"
    if "f \<in> set (get_files (corpus st))" for f
  proof -
    from assms(1) that have "\<forall>x \<in> set (data f). (\<lambda>(t, e). link e \<noteq> None) x" by blast
    then have "filter (\<lambda>(t, e). link e \<noteq> None) (data f) = data f" by (simp only: filter_True)
    then show ?thesis by simp
  qed
  then have eq: "map (\<lambda>f. length (filter (\<lambda>(t, e). link e \<noteq> None) (data f))) (get_files (corpus st))
      = map (\<lambda>f. length (data f)) (get_files (corpus st))"
    by simp
  let ?n = "sum_list (map (\<lambda>f. length (data f)) (get_files (corpus st)))"
  define lines where "lines = (out st @ [StatusHeader (annotations_folder (corpus st))]) @
      map (\<lambda>f. FileStatus (name f) (entity_type_count f) (py_round (snd (snd (file_status f)))))
        (get_files (corpus st))"
  have sf: "status_files (get_files (corpus st)) 0 0
        (out st @ [StatusHeader (annotations_folder (corpus st))]) = (?n, ?n, lines)"
    by (simp only: status_files_totals eq lines_def add_0)
  have "(of_nat ?n :: rat) / of_nat ?n * 100 = of_int 100"
    using assms(2) by simp
  then have pr: "py_round ((of_nat ?n :: rat) / of_nat ?n * 100) = 100"
    by (simp only: py_round_of_int)
  have "status st = (None, st\<lparr>out := lines @ [CorpusStatus ?n 100]\<rparr>)"
    by (simp only: status_def sf Let_def prod.case assms(2) if_False pr)
  then show ?thesis by blast
qed

lemma loop_status_raises:
  "fst (status (st\<lparr>link_suggestion := None\<rparr>)) = Some e \<Longrightarrow> \<not> DEBUG st \<Longrightarrow>
     fst (loop status_200 inputs st) = Crashed e"
  by (cases inputs; cases "status (st\<lparr>link_suggestion := None\<rparr>)")
     (simp_all add: loop_def loop_round_def dispatch_def debug_loop_def)

text \<open>
  Claim C1 fails on a corpus without entity types: \<open>status\<close> run on a folder without files
  raises \<open>ZeroDivisionError\<close>, and so \<open>loop\<close>, which begins with \<open>status\<close>, ends with that
  exception before it reads a line.
\<close>

theorem status_empty_corpus_raises:
  "get_files (corpus empty_state) = [] \<and> fst (status empty_state) = Some ZeroDivisionError \<and>
   fst (loop status_200 inputs empty_state) = Crashed ZeroDivisionError"
proof -
  have a: "get_files (corpus empty_state) = []" by code_simp
  have b: "fst (status empty_state) = Some ZeroDivisionError" by code_simp
  have "empty_state\<lparr>link_suggestion := None\<rparr> = empty_state" by (simp add: empty_state_def)
  with b have "fst (status (empty_state\<lparr>link_suggestion := None\<rparr>)) = Some ZeroDivisionError"
    by simp
  moreover have "\<not> DEBUG empty_state" by (simp add: empty_state_def)
  ultimately have c: "fst (loop status_200 inputs empty_state) = Crashed ZeroDivisionError"
    by (rule loop_status_raises)
  show ?thesis by (rule conjI [OF a conjI [OF b c]])
qed

subsection \<open>Correcting a link\<close>

lemma fix_link_not_an_integer:
  "split_space s = Some (ident, raw) \<Longrightarrow> py_int ident = None \<Longrightarrow>
     action_fix_link status_200 s st = (Some ValueError, st)"
  by (simp add: action_fix_link_def)

lemma fix_link_no_space:
  "split_space s = None \<Longrightarrow> action_fix_link status_200 s st = (Some ValueError, st)"
  by (simp add: action_fix_link_def)

lemma fix_link_unknown_identifier:
  "split_space s = Some (ident, raw) \<Longrightarrow> py_int ident = Some i \<Longrightarrow>
   validate_link status_200 (normalize_link raw) \<Longrightarrow> get_annotation (annotations st) i = None \<Longrightarrow>
     action_fix_link status_200 s st = (Some NotFound, st)"
  by (simp add: action_fix_link_def)

lemma split_abc: "split_space ''abc Jim_Lehrer'' = Some (''abc'', ''Jim_Lehrer'')"
  by code_simp

lemma py_int_abc: "py_int ''abc'' = None"
  by code_simp

text \<open>
  Claim C4 fails on an identifier that is not an integer: \<open>action_fix_link\<close> raises
  \<open>ValueError\<close>, which nothing catches, where \<open>action_set_context\<close> on the same text
  prints a warning and returns. In \<open>loop\<close> the first ends the process and the second
  does not.
\<close>

theorem fix_link_identifier_not_integer_raises:
  "action_fix_link status_200 ''abc Jim_Lehrer'' st = (Some ValueError, st) \<and>
   action_set_context ''abc'' st = (None, st\<lparr>out := out st @ [ContextSizeWarning]\<rparr>) \<and>
   loop (\<lambda>l. True) [''f abc Jim_Lehrer'', ''q''] acme_state = (Crashed ValueError, snd (status acme_state)) \<and>
   fst (loop (\<lambda>l. True) [''c abc'', ''q''] acme_state) = Quit"
proof -
  have a: "action_fix_link status_200 ''abc Jim_Lehrer'' st = (Some ValueError, st)"
    by (rule fix_link_not_an_integer [OF split_abc py_int_abc])
  have b: "action_set_context ''abc'' st = (None, st\<lparr>out := out st @ [ContextSizeWarning]\<rparr>)"
    by (simp add: action_set_context_def py_int_abc)
  have c: "loop (\<lambda>l. True) [''f abc Jim_Lehrer'', ''q''] acme_state = (Crashed ValueError, snd (status acme_state))"
    by code_simp
  have d: "fst (loop (\<lambda>l. True) [''c abc'', ''q''] acme_state) = Quit"
    by code_simp
  show ?thesis by (rule conjI [OF a conjI [OF b conjI [OF c d]]])
qed

subsection \<open>The context size\<close>

lemma get_context_0: "get_context 0 f e = ([], [])"
  by (simp add: get_context_def)

lemma print_contexts_size_0:
  "x \<in> set (snd (print_contexts c 0 t es acc)) \<Longrightarrow> x \<in> set acc \<or> x = ContextLine [] t []"
proof (induction es arbitrary: acc)
  case Nil
  then show ?case by simp
next
  case (Cons e es)
  show ?case
  proof (cases "map_of (files c) (file_name e)")
    case None
    with Cons.prems show ?thesis by simp
  next
    case (Some f)
    from Cons.prems have "x \<in> set (snd (print_contexts c 0 t es (acc @ [ContextLine [] t []])))"
      by (simp add: Some get_context_0)
    then have "x \<in> set (acc @ [ContextLine [] t []]) \<or> x = ContextLine [] t []"
      by (rule Cons.IH)
    then show ?thesis by auto
  qed
qed

text \<open>
  Claim C7, as the code has it. Whatever integer \<open>int\<close> reads from the input becomes the
  context size, unchanged and whatever its sign; an input that \<open>int\<close> rejects gives a
  warning and leaves the state, and so the context size, as it was. With the context size 0
  both contexts of a mention are empty, and so are they in every context line that
  \<open>action_print_next\<close> prints.
\<close>

theorem set_context_stores_any_integer:
  "(\<forall>n. py_int s = Some n \<longrightarrow> action_set_context s st = (None, st\<lparr>CONTEXT_SIZE := n\<rparr>)) \<and>
   (py_int s = None \<longrightarrow> action_set_context s st = (None, st\<lparr>out := out st @ [ContextSizeWarning]\<rparr>)) \<and>
   get_context 0 f e = ([], []) \<and>
   (\<forall>x \<in> set (snd (print_contexts c 0 t es acc)). x \<in> set acc \<or> x = ContextLine [] t [])"
proof -
  have a: "\<forall>n. py_int s = Some n \<longrightarrow> action_set_context s st = (None, st\<lparr>CONTEXT_SIZE := n\<rparr>)"
    by (simp add: action_set_context_def)
  have b: "py_int s = None \<longrightarrow> action_set_context s st = (None, st\<lparr>out := out st @ [ContextSizeWarning]\<rparr>)"
    by (simp add: action_set_context_def)
  have c: "get_context 0 f e = ([], [])" by (rule get_context_0)
  have d: "\<forall>x \<in> set (snd (print_contexts c 0 t es acc)). x \<in> set acc \<or> x = ContextLine [] t []"
    by (rule ballI) (rule print_contexts_size_0)
  show ?thesis by (rule conjI [OF a conjI [OF b conjI [OF c d]]])
qed

lemma py_int_minus5: "py_int ''-5'' = Some (- 5)"
  by code_simp

lemma py_int_0: "py_int ''0'' = Some 0"
  by code_simp

lemma zero_contexts_run:
  "print_contexts acme_corpus 0 ''Acme'' [\<lparr>file_name = ''D1'', p1 = 0, p2 = 4\<rparr>] []
     = (None, [ContextLine [] ''Acme'' []])"
  by code_simp

theorem set_context_stores_any_integer_witness:
  "py_int ''-5'' = Some (- 5) \<and>
   action_set_context ''-5'' acme_state = (None, acme_state\<lparr>CONTEXT_SIZE := - 5\<rparr>) \<and>
   py_int ''0'' = Some 0 \<and>
   action_set_context ''0'' acme_state = (None, acme_state\<lparr>CONTEXT_SIZE := 0\<rparr>) \<and>
   print_contexts acme_corpus 0 ''Acme'' [\<lparr>file_name = ''D1'', p1 = 0, p2 = 4\<rparr>] []
     = (None, [ContextLine [] ''Acme'' []]) \<and>
   py_int ''abc'' = None \<and>
   action_set_context ''abc'' acme_state = (None, acme_state\<lparr>out := out acme_state @ [ContextSizeWarning]\<rparr>)"
proof -
  note inst = set_context_stores_any_integer
    [where st = acme_state and f = "snd (example_file ''D1'' [])"
       and e = "\<lparr>file_name = ''D1'', p1 = 0, p2 = 4\<rparr>" and c = acme_corpus and t = "''Acme''"
       and es = "[\<lparr>file_name = ''D1'', p1 = 0, p2 = 4\<rparr>]" and acc = "[]"]
  have a: "action_set_context ''-5'' acme_state = (None, acme_state\<lparr>CONTEXT_SIZE := - 5\<rparr>)"
    using inst [where s = "''-5''"] py_int_minus5 by blast
  have b: "action_set_context ''0'' acme_state = (None, acme_state\<lparr>CONTEXT_SIZE := 0\<rparr>)"
    using inst [where s = "''0''"] py_int_0 by blast
  have c: "action_set_context ''abc'' acme_state
      = (None, acme_state\<lparr>out := out acme_state @ [ContextSizeWarning]\<rparr>)"
    using inst [where s = "''abc''"] py_int_abc by blast
  from py_int_minus5 a py_int_0 b zero_contexts_run py_int_abc c show ?thesis by blast
qed

text \<open>
  A run: with the context size 3, the input \<open>-5\<close> is stored as \<open>-5\<close>, without a warning.
\<close>

theorem set_context_negative_counterexample:
  "CONTEXT_SIZE acme_state = 3 \<and>
   fst (action_set_context ''-5'' acme_state) = None \<and>
   out (snd (action_set_context ''-5'' acme_state)) = out acme_state \<and>
   CONTEXT_SIZE (snd (action_set_context ''-5'' acme_state)) = - 5"
  by code_simp

end
